theory Spec2Isabelle
  imports Main "HOL-Library.Word"
begin

unbundle bit_operations_syntax

section \<open>Data model\<close>

text \<open>
  The file-backed server (\<^verbatim>\<open>src/server.js\<close>, lines 1--280, and the same handlers in
  \<^verbatim>\<open>src/api/index.js\<close>) keeps two JSON files: an array of users and an array of
  progress objects. Every handler reads a whole file with \<^verbatim>\<open>JSON.parse\<close>, works on the
  parsed array and writes the whole array back with \<^verbatim>\<open>JSON.stringify\<close>. The state
  between two requests is the array \<^verbatim>\<open>readProgress\<close> returns; a handler is a function
  from that array to what it sends and to the array the next \<^verbatim>\<open>readProgress\<close> returns.
  Reading and writing the files succeed. The second server of \<^verbatim>\<open>src/server.js\<close> (from
  line 281), which keeps its data in a relational store, is not modelled.

  JavaScript objects of different kinds share field names (\<^verbatim>\<open>id\<close>, \<^verbatim>\<open>name\<close>, ...); record
  fields are global constants in HOL, so the fields of a section carry the prefix
  \<open>s_\<close>, those of a stored user \<open>u_\<close> and those of the session's user \<open>i_\<close>. The
  fields of a progress object keep their names.
\<close>

subsection \<open>JavaScript values\<close>

text \<open>
  The handlers of \<^verbatim>\<open>POST /api/progress\<close> and \<^verbatim>\<open>POST /api/login\<close> use \<^verbatim>\<open>sectionId\<close>,
  \<^verbatim>\<open>acknowledged\<close>, \<^verbatim>\<open>email\<close> and \<^verbatim>\<open>password\<close> as the body parser delivers them,
  without a check of their type (server.js, lines 100 and 164): any parsed JSON value,
  or \<^verbatim>\<open>undefined\<close> for a missing field.

  A JavaScript number is an IEEE 754 binary64 value, modelled by its 64 bits: bit 63
  the sign, bits 62--52 the exponent, bits 51--0 the fraction. The handlers never
  compute with these numbers; they compare them, test their truth value and write
  them as JSON, which needs the classification of the bit pattern only. The input of a
  handler is the number \<^verbatim>\<open>JSON.parse\<close> has made of the literal in the request, so
  the literals \<^verbatim>\<open>9007199254740992\<close> and \<^verbatim>\<open>9007199254740993\<close> are one input (the bits
  \<open>0x4340000000000000\<close>) and the literal \<^verbatim>\<open>1e999\<close> is \<^verbatim>\<open>Infinity\<close>.
\<close>

type_synonym double = "64 word"

text \<open>The exponent is not all ones: neither an infinity nor a NaN.\<close>

definition isFiniteNumber :: "double \<Rightarrow> bool" where
  "isFiniteNumber d = (d AND 0x7FF0000000000000 \<noteq> 0x7FF0000000000000)"

definition isNaN :: "double \<Rightarrow> bool" where
  "isNaN d = (d AND 0x7FF0000000000000 = 0x7FF0000000000000 \<and> d AND 0x000FFFFFFFFFFFFF \<noteq> 0)"

text \<open>\<open>+0\<close> or \<open>-0\<close>.\<close>

definition isZero :: "double \<Rightarrow> bool" where
  "isZero d = (d AND 0x7FFFFFFFFFFFFFFF = 0)"

text \<open>\<^verbatim>\<open>===\<close> on two numbers: a NaN equals nothing, the two zeros are equal.\<close>

definition numberEquals :: "double \<Rightarrow> double \<Rightarrow> bool" where
  "numberEquals a b = (\<not> isNaN a \<and> \<not> isNaN b \<and> (a = b \<or> (isZero a \<and> isZero b)))"

datatype jsvalue =
    JUndefined
  | JNull
  | JBool bool
  | JNumber double
  | JString string
  | JArray "jsvalue list"
  | JObject "(string \<times> jsvalue) list"

text \<open>
  \<^verbatim>\<open>a === b\<close> for two values that come from different calls of \<^verbatim>\<open>JSON.parse\<close> (one
  from the progress file, one from the request): primitives are compared by value, and
  two objects or arrays are never the same object.
\<close>

fun strictEquals :: "jsvalue \<Rightarrow> jsvalue \<Rightarrow> bool" where
  "strictEquals JUndefined JUndefined = True"
| "strictEquals JNull JNull = True"
| "strictEquals (JBool a) (JBool b) = (a = b)"
| "strictEquals (JNumber a) (JNumber b) = numberEquals a b"
| "strictEquals (JString a) (JString b) = (a = b)"
| "strictEquals _ _ = False"

text \<open>The truth value of a value in a condition, as \<^verbatim>\<open>filter(s => s.acknowledged)\<close> takes it.\<close>

fun truthy :: "jsvalue \<Rightarrow> bool" where
  "truthy JUndefined = False"
| "truthy JNull = False"
| "truthy (JBool b) = b"
| "truthy (JNumber d) = (\<not> isZero d \<and> \<not> isNaN d)"
| "truthy (JString s) = (s \<noteq> [])"
| "truthy (JArray xs) = True"
| "truthy (JObject kvs) = True"

text \<open>
  What \<^verbatim>\<open>JSON.parse(JSON.stringify(o)).f\<close> is when \<^verbatim>\<open>o.f\<close> is the given value: a finite
  number is written so that it parses to the same number (\<open>-0\<close> is written \<^verbatim>\<open>0\<close>); an
  infinity or a NaN is written \<^verbatim>\<open>null\<close>; a property that is \<^verbatim>\<open>undefined\<close> is left out,
  and reads as \<^verbatim>\<open>undefined\<close> again; an array element that is \<^verbatim>\<open>undefined\<close> is written
  \<^verbatim>\<open>null\<close>.
\<close>

fun json :: "jsvalue \<Rightarrow> jsvalue" where
  "json JUndefined = JUndefined"
| "json JNull = JNull"
| "json (JBool b) = JBool b"
| "json (JNumber d) =
     (if isFiniteNumber d then JNumber (if isZero d then 0 else d) else JNull)"
| "json (JString s) = JString s"
| "json (JArray xs) = JArray (map (\<lambda>x. if x = JUndefined then JNull else json x) xs)"
| "json (JObject kvs) =
     JObject (map (\<lambda>kv. (fst kv, json (snd kv))) (filter (\<lambda>kv. snd kv \<noteq> JUndefined) kvs))"

text \<open>\<^verbatim>\<open>typeof\<close>, for the message of the error \<^verbatim>\<open>bcrypt.compareSync\<close> throws.\<close>

fun typeOf :: "jsvalue \<Rightarrow> string" where
  "typeOf JUndefined = ''undefined''"
| "typeOf (JBool b) = ''boolean''"
| "typeOf (JNumber d) = ''number''"
| "typeOf (JString s) = ''string''"
| "typeOf v = ''object''"

subsection \<open>Stored objects, sessions and responses\<close>

text \<open>
  The ids and counters the server makes itself (user ids, the two counters of a progress
  object) are integers far below \<open>2 ^ 53\<close> and are modelled as \<open>int\<close>; emails, names,
  roles and timestamps are strings. \<^verbatim>\<open>id\<close> and \<^verbatim>\<open>acknowledged\<close> of a section come from
  the request and are JavaScript values.
\<close>

type_synonym timestamp = string

text \<open>An element of \<^verbatim>\<open>userProgress.sections\<close> (server.js, lines 186--190).\<close>

record SectionRecord =
  s_id :: jsvalue
  s_acknowledged :: jsvalue
  s_completedAt :: timestamp

text \<open>An element of the progress file (server.js, lines 146--153).\<close>

record ProgressRecord =
  userId :: int
  userName :: string
  sections :: "SectionRecord list"
  currentSection :: int
  completedSections :: int
  lastUpdated :: timestamp

text \<open>An element of the users file (server.js, lines 39--52).\<close>

record User =
  u_id :: int
  u_email :: string
  u_password :: string
  u_name :: string
  u_role :: string

text \<open>\<^verbatim>\<open>req.session.user\<close> as the login handler sets it (server.js, lines 112--117).\<close>

record identity =
  i_id :: int
  i_email :: string
  i_name :: string
  i_role :: string

text \<open>
  \<^verbatim>\<open>req.session\<close>: the only field the handlers use is \<^verbatim>\<open>user\<close>, which is
  undefined until a login succeeds. A request carries \<open>session option\<close>, since the
  middleware tests \<^verbatim>\<open>req.session\<close> itself as well.
\<close>

record session =
  user :: "identity option"

text \<open>
  What a handler sends: the status (200 when \<^verbatim>\<open>res.json\<close> is called without
  \<^verbatim>\<open>res.status\<close>) and the body, one constructor for each shape the handlers modelled
  here produce. \<open>Uncaught\<close> is the answer of Express to an exception no handler
  catches: status 500 and an error page, here the message of the exception.
\<close>

datatype body =
    Error string
  | Progress ProgressRecord
  | LoggedIn identity
  | Created int string string
  | Uncaught string

record response =
  status :: nat
  body :: body

text \<open>A middleware either calls \<^verbatim>\<open>next()\<close> or answers the request itself.\<close>

datatype gate = Next | Reply response

text \<open>
  The handler of \<^verbatim>\<open>POST /api/progress\<close> reads the clock up to three times: for
  \<^verbatim>\<open>lastUpdated\<close> of a record it creates (line 175), for \<^verbatim>\<open>completedAt\<close> of the section
  (line 184 or 189) and for \<^verbatim>\<open>lastUpdated\<close> (line 196).
\<close>

record clock =
  t_created :: timestamp
  t_completed :: timestamp
  t_updated :: timestamp

section \<open>Array helpers\<close>

text \<open>
  \<^verbatim>\<open>Array.prototype.find\<close> is \<^const>\<open>find\<close> of the list library: the first element that
  satisfies the predicate, \<open>None\<close> for \<^verbatim>\<open>undefined\<close>. \<^verbatim>\<open>Array.prototype.findIndex\<close>
  returns the index of that element, or \<open>-1\<close>.
\<close>

fun findIndex :: "('a \<Rightarrow> bool) \<Rightarrow> 'a list \<Rightarrow> int" where
  "findIndex P [] = - 1"
| "findIndex P (x # xs) =
     (if P x then 0
      else (let i = findIndex P xs in if i < 0 then - 1 else i + 1))"

section \<open>Persistence\<close>

text \<open>
  \<^verbatim>\<open>writeProgress\<close> (server.js, lines 77--79) writes \<^verbatim>\<open>JSON.stringify(progress)\<close>, and the
  next \<^verbatim>\<open>readProgress\<close> (lines 73--75) parses that text: \<open>writeProgress progress\<close> is
  the array the next request reads. In a progress object only \<^verbatim>\<open>id\<close> and
  \<^verbatim>\<open>acknowledged\<close> of the sections can change on the way; integers and strings are read
  back as they were written. \<^verbatim>\<open>res.json\<close> sends the same text, so \<open>jsonProgress\<close> of a
  progress object is also what the client receives for it.
\<close>

definition jsonSection :: "SectionRecord \<Rightarrow> SectionRecord" where
  "jsonSection s = s\<lparr>s_id := json (s_id s), s_acknowledged := json (s_acknowledged s)\<rparr>"

definition jsonProgress :: "ProgressRecord \<Rightarrow> ProgressRecord" where
  "jsonProgress p = p\<lparr>sections := map jsonSection (sections p)\<rparr>"

definition writeProgress :: "ProgressRecord list \<Rightarrow> ProgressRecord list" where
  "writeProgress progress = map jsonProgress progress"

section \<open>Authorization middleware\<close>

text \<open>server.js, lines 82--87.\<close>

definition isAuthenticated :: "session option \<Rightarrow> gate" where
  "isAuthenticated req_session =
     (case req_session of
        None \<Rightarrow> Reply \<lparr>status = 401, body = Error ''Not authenticated''\<rparr>
      | Some s \<Rightarrow>
          (case user s of
             None \<Rightarrow> Reply \<lparr>status = 401, body = Error ''Not authenticated''\<rparr>
           | Some u \<Rightarrow> Next))"

text \<open>server.js, lines 89--94.\<close>

definition isAdmin :: "session option \<Rightarrow> gate" where
  "isAdmin req_session =
     (case req_session of
        None \<Rightarrow> Reply \<lparr>status = 403, body = Error ''Admin access required''\<rparr>
      | Some s \<Rightarrow>
          (case user s of
             None \<Rightarrow> Reply \<lparr>status = 403, body = Error ''Admin access required''\<rparr>
           | Some u \<Rightarrow>
               if i_role u = ''admin'' then Next
               else Reply \<lparr>status = 403, body = Error ''Admin access required''\<rparr>))"

text \<open>\<^verbatim>\<open>req.session.user\<close>, when both the session and its user are there.\<close>

definition session_user :: "session option \<Rightarrow> identity option" where
  "session_user req_session = (case req_session of None \<Rightarrow> None | Some s \<Rightarrow> user s)"

section \<open>Login\<close>

text \<open>
  \<^verbatim>\<open>bcrypt.compareSync(s, hash)\<close> of the library \<^verbatim>\<open>bcryptjs\<close>, which is a dependency and
  not part of the sources: it throws \<^verbatim>\<open>Error("Illegal arguments: " + typeof s + ", " +
  typeof hash)\<close> unless both arguments are strings, and otherwise returns whether the
  password matches the hash. The comparison itself is the parameter \<open>matches\<close>; the
  hash of a stored user is a string. \<open>Inl\<close> is the exception thrown.
\<close>

definition compareSync :: "(string \<Rightarrow> string \<Rightarrow> bool) \<Rightarrow> jsvalue \<Rightarrow> string \<Rightarrow> string + bool" where
  "compareSync matches s hash =
     (case s of
        JString password \<Rightarrow> Inr (matches password hash)
      | _ \<Rightarrow> Inl (''Illegal arguments: '' @ typeOf s @ '', string''))"

text \<open>
  server.js, lines 99--123: what the handler sends and the session it leaves, for the
  \<^verbatim>\<open>email\<close> and \<^verbatim>\<open>password\<close> of the parsed body. The email of a stored user is a
  string, compared with \<^verbatim>\<open>===\<close> (line 102). Nothing catches an exception of
  \<^verbatim>\<open>bcrypt.compareSync\<close> (line 108), so Express answers it with status 500.
\<close>

definition login ::
  "(string \<Rightarrow> string \<Rightarrow> bool) \<Rightarrow> User list \<Rightarrow> session \<Rightarrow> jsvalue \<Rightarrow> jsvalue
     \<Rightarrow> response \<times> session" where
  "login matches users req_session email password =
     (case find (\<lambda>u. strictEquals (JString (u_email u)) email) users of
        None \<Rightarrow> (\<lparr>status = 401, body = Error ''Invalid credentials''\<rparr>, req_session)
      | Some u \<Rightarrow>
          (case compareSync matches password (u_password u) of
             Inl exn \<Rightarrow> (\<lparr>status = 500, body = Uncaught exn\<rparr>, req_session)
           | Inr ok \<Rightarrow>
               if \<not> ok
               then (\<lparr>status = 401, body = Error ''Invalid credentials''\<rparr>, req_session)
               else
                 (let su = \<lparr>i_id = u_id u, i_email = u_email u, i_name = u_name u,
                             i_role = u_role u\<rparr>
                  in (\<lparr>status = 200, body = LoggedIn su\<rparr>, req_session\<lparr>user := Some su\<rparr>))))"

section \<open>Progress\<close>

text \<open>The object both progress handlers create for a user without one (lines 146--153, 169--176).\<close>

definition newProgress :: "identity \<Rightarrow> timestamp \<Rightarrow> ProgressRecord" where
  "newProgress u now =
     \<lparr>userId = i_id u, userName = i_name u, sections = [], currentSection = 0,
      completedSections = 0, lastUpdated = now\<rparr>"

text \<open>
  The handler of \<^verbatim>\<open>GET /api/progress\<close> (server.js, lines 141--160), for the session's
  user \<open>u\<close>: the object the client receives and the array the next request reads. The
  file is written only when the user had no object (line 155).
\<close>

definition getProgress ::
  "timestamp \<Rightarrow> identity \<Rightarrow> ProgressRecord list \<Rightarrow> ProgressRecord \<times> ProgressRecord list" where
  "getProgress now u allProgress =
     (case find (\<lambda>p. userId p = i_id u) allProgress of
        None \<Rightarrow>
          (jsonProgress (newProgress u now), writeProgress (allProgress @ [newProgress u now]))
      | Some userProgress \<Rightarrow> (jsonProgress userProgress, allProgress))"

text \<open>
  Lines 181--191: the section \<^verbatim>\<open>findIndex(s => s.id === sectionId)\<close> finds is overwritten
  in place, and a new one is appended when it finds none.
\<close>

definition upsertSection ::
  "timestamp \<Rightarrow> jsvalue \<Rightarrow> jsvalue \<Rightarrow> SectionRecord list \<Rightarrow> SectionRecord list" where
  "upsertSection now sectionId acknowledged secs =
     (let sectionIndex = findIndex (\<lambda>s. strictEquals (s_id s) sectionId) secs in
      if sectionIndex \<ge> 0
      then secs[nat sectionIndex :=
             (secs ! nat sectionIndex)\<lparr>s_acknowledged := acknowledged, s_completedAt := now\<rparr>]
      else secs @ [\<lparr>s_id = sectionId, s_acknowledged = acknowledged, s_completedAt = now\<rparr>])"

text \<open>
  Lines 194--196: the counters are recomputed from the sections;
  \<^verbatim>\<open>filter(s => s.acknowledged)\<close> keeps the sections whose flag is truthy.
\<close>

definition updateCounters :: "timestamp \<Rightarrow> ProgressRecord \<Rightarrow> ProgressRecord" where
  "updateCounters now p =
     (let completed = int (length (filter (\<lambda>s. truthy (s_acknowledged s)) (sections p))) in
      p\<lparr>completedSections := completed, currentSection := min completed 6,
        lastUpdated := now\<rparr>)"

text \<open>Lines 180--196 together: what the handler does to the user's progress object.\<close>

definition applyUpdate :: "clock \<Rightarrow> jsvalue \<Rightarrow> jsvalue \<Rightarrow> ProgressRecord \<Rightarrow> ProgressRecord" where
  "applyUpdate clk sectionId acknowledged userProgress =
     updateCounters (t_updated clk)
       (userProgress\<lparr>sections :=
          upsertSection (t_completed clk) sectionId acknowledged (sections userProgress)\<rparr>)"

text \<open>
  The handler of \<^verbatim>\<open>POST /api/progress\<close> (server.js, lines 163--206), for the session's
  user \<open>u\<close>: the object the client receives and the array the next request reads. The
  JavaScript mutates the object \<^verbatim>\<open>find\<close> returned (or the one it has just pushed) in
  place; that object is the first element of \<^verbatim>\<open>allProgress\<close> with the user's id, which
  is also the element \<^verbatim>\<open>findIndex\<close> designates at line 199, so the array written is
  the array read (or extended) with that element replaced.
\<close>

definition acknowledgeSection ::
  "clock \<Rightarrow> identity \<Rightarrow> jsvalue \<Rightarrow> jsvalue \<Rightarrow> ProgressRecord list
     \<Rightarrow> ProgressRecord \<times> ProgressRecord list" where
  "acknowledgeSection clk u sectionId acknowledged stored =
     (let (userProgress, allProgress) =
            (case find (\<lambda>p. userId p = i_id u) stored of
               None \<Rightarrow> (newProgress u (t_created clk), stored @ [newProgress u (t_created clk)])
             | Some p \<Rightarrow> (p, stored));
          updated = applyUpdate clk sectionId acknowledged userProgress;
          progressIndex = findIndex (\<lambda>p. userId p = i_id u) allProgress
      in (jsonProgress updated,
          writeProgress
            (if progressIndex \<ge> 0 then allProgress[nat progressIndex := updated]
             else allProgress)))"

text \<open>
  The routes: \<^verbatim>\<open>isAuthenticated\<close> runs first. A handler that read
  \<^verbatim>\<open>req.session.user.id\<close> without a user would throw, which Express answers with status
  500; after \<^const>\<open>isAuthenticated\<close> that branch is never taken.
\<close>

definition get_api_progress ::
  "timestamp \<Rightarrow> session option \<Rightarrow> ProgressRecord list \<Rightarrow> response \<times> ProgressRecord list" where
  "get_api_progress now req_session stored =
     (case isAuthenticated req_session of
        Reply r \<Rightarrow> (r, stored)
      | Next \<Rightarrow>
          (case session_user req_session of
             None \<Rightarrow> (\<lparr>status = 500, body = Uncaught ''TypeError''\<rparr>, stored)
           | Some u \<Rightarrow>
               (let (p, written) = getProgress now u stored
                in (\<lparr>status = 200, body = Progress p\<rparr>, written))))"

definition post_api_progress ::
  "clock \<Rightarrow> session option \<Rightarrow> jsvalue \<Rightarrow> jsvalue \<Rightarrow> ProgressRecord list
     \<Rightarrow> response \<times> ProgressRecord list" where
  "post_api_progress clk req_session sectionId acknowledged stored =
     (case isAuthenticated req_session of
        Reply r \<Rightarrow> (r, stored)
      | Next \<Rightarrow>
          (case session_user req_session of
             None \<Rightarrow> (\<lparr>status = 500, body = Uncaught ''TypeError''\<rparr>, stored)
           | Some u \<Rightarrow>
               (let (p, written) = acknowledgeSection clk u sectionId acknowledged stored
                in (\<lparr>status = 200, body = Progress p\<rparr>, written))))"

text \<open>
  Calls of the two progress routes, by any session at any time and with any parsed
  body, and the array read after a sequence of them. \<^verbatim>\<open>initializeDataFiles\<close> creates
  the file as the empty array (server.js, lines 57--59), so the states the server
  reaches are \<open>run cs []\<close>.
\<close>

datatype call =
    GetProgress timestamp "session option"
  | AcknowledgeSection clock "session option" jsvalue jsvalue

fun step :: "call \<Rightarrow> ProgressRecord list \<Rightarrow> ProgressRecord list" where
  "step (GetProgress now req_session) stored = snd (get_api_progress now req_session stored)"
| "step (AcknowledgeSection clk req_session sectionId acknowledged) stored =
     snd (post_api_progress clk req_session sectionId acknowledged stored)"

fun run :: "call list \<Rightarrow> ProgressRecord list \<Rightarrow> ProgressRecord list" where
  "run [] stored = stored"
| "run (c # cs) stored = run cs (step c stored)"

text \<open>
  The section ids of a record whose \<^verbatim>\<open>acknowledged\<close> flag is truthy (\<^verbatim>\<open>true\<close>, for a
  boolean flag), as a set: its cardinality counts each id once.
\<close>

definition acknowledgedIds :: "ProgressRecord \<Rightarrow> jsvalue set" where
  "acknowledgedIds p = s_id ` set (filter (\<lambda>s. truthy (s_acknowledged s)) (sections p))"

text \<open>
  The values a section id keeps through \<^verbatim>\<open>JSON.stringify\<close> and \<^verbatim>\<open>JSON.parse\<close> and that
  \<^verbatim>\<open>===\<close> compares by value: a finite number, a string, a boolean, \<^verbatim>\<open>null\<close>, or a
  missing field. A flag keeps its truth value unless it is a number that is not
  finite. The calls of \<^verbatim>\<open>POST /api/progress\<close> with such an id, with such a flag, and
  with both.
\<close>

fun stableId :: "jsvalue \<Rightarrow> bool" where
  "stableId (JNumber d) = isFiniteNumber d"
| "stableId (JArray xs) = False"
| "stableId (JObject kvs) = False"
| "stableId v = True"

fun stableFlag :: "jsvalue \<Rightarrow> bool" where
  "stableFlag (JNumber d) = isFiniteNumber d"
| "stableFlag v = True"

fun stableIdCall :: "call \<Rightarrow> bool" where
  "stableIdCall (GetProgress now req_session) = True"
| "stableIdCall (AcknowledgeSection clk req_session sectionId acknowledged) = stableId sectionId"

fun stableFlagCall :: "call \<Rightarrow> bool" where
  "stableFlagCall (GetProgress now req_session) = True"
| "stableFlagCall (AcknowledgeSection clk req_session sectionId acknowledged) =
     stableFlag acknowledged"

definition stableCall :: "call \<Rightarrow> bool" where
  "stableCall c = (stableIdCall c \<and> stableFlagCall c)"

section \<open>User creation\<close>



section \<open>Concrete inputs\<close>

text \<open>
  The users \<^verbatim>\<open>initializeDataFiles\<close> seeds (server.js, lines 38--53), with placeholder
  hashes, the sessions their logins leave and a clock.
\<close>

definition defaultUsers :: "User list" where
  "defaultUsers =
     [\<lparr>u_id = 1, u_email = ''admin@maytech.com'', u_password = ''hash-admin123'',
       u_name = ''Admin User'', u_role = ''admin''\<rparr>,
      \<lparr>u_id = 2, u_email = ''staff@maytech.com'', u_password = ''hash-staff123'',
       u_name = ''Demo Staff'', u_role = ''staff''\<rparr>]"

definition staff :: identity where
  "staff = \<lparr>i_id = 2, i_email = ''staff@maytech.com'', i_name = ''Demo Staff'',
            i_role = ''staff''\<rparr>"

definition admin :: identity where
  "admin = \<lparr>i_id = 1, i_email = ''admin@maytech.com'', i_name = ''Admin User'',
            i_role = ''admin''\<rparr>"

definition noon :: clock where
  "noon = \<lparr>t_created = ''2025-01-01T12:00:00.000Z'', t_completed = ''2025-01-01T12:00:00.001Z'',
           t_updated = ''2025-01-01T12:00:00.002Z''\<rparr>"

text \<open>A hash comparison that accepts a password against the placeholder hash of it.\<close>

definition demoCompare :: "string \<Rightarrow> string \<Rightarrow> bool" where
  "demoCompare password hash = (hash = ''hash-'' @ password)"


text \<open>
  The numbers 0, 1, 3 and 42 and \<^verbatim>\<open>Infinity\<close> as binary64 values, and the values
  \<^verbatim>\<open>true\<close> and \<^verbatim>\<open>false\<close>.
\<close>

definition num0 :: jsvalue where "num0 = JNumber 0"
definition num1 :: jsvalue where "num1 = JNumber 0x3FF0000000000000"
definition num3 :: jsvalue where "num3 = JNumber 0x4008000000000000"
definition num42 :: jsvalue where "num42 = JNumber 0x4045000000000000"
definition infinity :: jsvalue where "infinity = JNumber 0x7FF0000000000000"
definition true :: jsvalue where "true = JBool True"
definition false :: jsvalue where "false = JBool False"

text \<open>
  The session of the seeded staff user and call sequences by that user: three
  acknowledgements of sections 0, 3 and 0; one of section 0; and two with the id
  \<^verbatim>\<open>1e999\<close>, which \<^verbatim>\<open>JSON.parse\<close> reads as \<^verbatim>\<open>Infinity\<close>.
\<close>

definition staffSession :: "session option" where
  "staffSession = Some \<lparr>user = Some staff\<rparr>"

definition demoCalls :: "call list" where
  "demoCalls =
     [AcknowledgeSection noon staffSession num0 true,
      AcknowledgeSection noon staffSession num3 true,
      AcknowledgeSection noon staffSession num0 true]"


definition infinityTwice :: "call list" where
  "infinityTwice =
     [AcknowledgeSection noon staffSession infinity true,
      AcknowledgeSection noon staffSession infinity true]"

section \<open>Properties of the array helpers\<close>

lemma findIndex_ge: "- 1 \<le> findIndex P xs"
  by (induction xs) (auto simp: Let_def)

lemma findIndex_neg_iff: "findIndex P xs < 0 \<longleftrightarrow> (\<forall>x\<in>set xs. \<not> P x)"
  by (induction xs) (auto simp: Let_def)

lemma findIndex_find_None: "find P xs = None \<longleftrightarrow> findIndex P xs < 0"
  by (auto simp: find_None_iff findIndex_neg_iff)

lemma findIndex_append_fresh:
  "findIndex P xs < 0 \<Longrightarrow> P x \<Longrightarrow> findIndex P (xs @ [x]) = int (length xs)"
  by (induction xs) (auto simp: Let_def split: if_splits)

lemma find_Some_findIndex:
  "find P xs = Some x \<Longrightarrow> 0 \<le> findIndex P xs \<and> xs ! nat (findIndex P xs) = x"
proof (induction xs)
  case Nil
  then show ?case by simp
next
  case (Cons y ys)
  show ?case
  proof (cases "P y")
    case True
    with Cons.prems show ?thesis by simp
  next
    case False
    with Cons.prems have "find P ys = Some x" by simp
    from Cons.IH[OF this] False show ?thesis
      by (simp add: Let_def nat_add_distrib)
  qed
qed

lemma find_update_first:
  "0 \<le> findIndex P xs \<Longrightarrow> P y \<Longrightarrow> find P (xs[nat (findIndex P xs) := y]) = Some y"
proof (induction xs)
  case Nil
  then show ?case by simp
next
  case (Cons x xs)
  show ?case
  proof (cases "P x")
    case True
    with Cons.prems show ?thesis by simp
  next
    case False
    with Cons.prems have "0 \<le> findIndex P xs"
      by (simp add: Let_def split: if_splits)
    with Cons.IH Cons.prems(2) False show ?thesis
      by (simp add: Let_def nat_add_distrib)
  qed
qed

lemma find_append_fresh: "find P xs = None \<Longrightarrow> P y \<Longrightarrow> find P (xs @ [y]) = Some y"
  by (induction xs) (auto split: if_splits)

lemma find_Some_sat: "find P xs = Some x \<Longrightarrow> P x \<and> x \<in> set xs"
  by (induction xs) (auto split: if_splits)

lemma find_map_same:
  "(\<And>x. P (f x) = P x) \<Longrightarrow> find P (map f xs) = map_option f (find P xs)"
  by (induction xs) auto

section \<open>Properties of numbers and values\<close>

lemma isZero_0: "isZero 0"
  by (simp add: isZero_def)

lemma isFiniteNumber_0: "isFiniteNumber 0"
  by (simp add: isFiniteNumber_def)

lemma finite_not_NaN: "isFiniteNumber d \<Longrightarrow> \<not> isNaN d"
  by (simp add: isFiniteNumber_def isNaN_def)

lemma zero_finite: "isZero d \<Longrightarrow> isFiniteNumber d"
proof -
  assume z: "isZero d"
  have "d AND 0x7FF0000000000000 = (d AND 0x7FFFFFFFFFFFFFFF) AND 0x7FF0000000000000"
    by (simp add: and.assoc)
  also have "\<dots> = 0" using z by (simp add: isZero_def)
  finally show ?thesis by (simp add: isFiniteNumber_def)
qed

text \<open>A number read from a file the server wrote is finite and is not \<open>-0\<close>.\<close>

lemma json_number:
  "json y = JNumber e \<Longrightarrow> isFiniteNumber e \<and> (isZero e \<longrightarrow> e = 0)"
  by (cases y) (auto simp: isFiniteNumber_0 split: if_splits)

lemma json_primitive: "stableId v \<Longrightarrow> json (json v) = json v"
  by (cases v) (auto simp: isFiniteNumber_0 isZero_0)

lemma strictEquals_json:
  assumes "stableId v"
  shows "strictEquals (json y) v = (json y = json v)"
proof (cases v)
  case (JNumber d)
  with assms have fin: "isFiniteNumber d" by simp
  show ?thesis
  proof (cases "json y")
    case (JNumber e)
    from json_number[OF this] have e: "isFiniteNumber e" "isZero e \<longrightarrow> e = 0" by simp_all
    with fin \<open>v = JNumber d\<close> JNumber show ?thesis
      by (auto simp: numberEquals_def finite_not_NaN isZero_0)
  qed (use \<open>v = JNumber d\<close> fin in auto)
qed (use assms in \<open>cases "json y"; auto\<close>)+

lemma strictEquals_same_json: "strictEquals x v \<Longrightarrow> json x = json v"
  by (cases x; cases v) (auto simp: numberEquals_def zero_finite)


lemma truthy_json_json: "truthy (json (json f)) = truthy (json f)"
  by (cases f) (auto simp: isFiniteNumber_0 isZero_0)

lemma truthy_json_stable: "stableFlag f \<Longrightarrow> truthy (json f) = truthy f"
  by (cases f) (auto simp: isZero_0 finite_not_NaN)

section \<open>Properties of the section upsert\<close>

lemma upsertSection_Nil:
  "upsertSection now sid a [] = [\<lparr>s_id = sid, s_acknowledged = a, s_completedAt = now\<rparr>]"
  by (simp add: upsertSection_def)

lemma upsertSection_Cons:
  "upsertSection now sid a (s # ss) =
     (if strictEquals (s_id s) sid then s\<lparr>s_acknowledged := a, s_completedAt := now\<rparr> # ss
      else s # upsertSection now sid a ss)"
  using findIndex_ge[of "\<lambda>s. strictEquals (s_id s) sid" ss]
  by (auto simp: upsertSection_def Let_def nat_add_distrib)

text \<open>The id and the flag the call leaves in the written section.\<close>

lemma upsertSection_stores:
  "\<exists>s\<in>set (upsertSection now sid a secs). json (s_id s) = json sid \<and> s_acknowledged s = a"
  by (induction secs) (auto simp: upsertSection_Nil upsertSection_Cons strictEquals_same_json)

lemma s_id_jsonSection: "s_id (jsonSection s) = json (s_id s)"
  by (simp add: jsonSection_def)

lemma s_acknowledged_jsonSection: "s_acknowledged (jsonSection s) = json (s_acknowledged s)"
  by (simp add: jsonSection_def)

text \<open>
  Sections read from a file the server wrote, whose ids came from stable ids: a further
  write leaves the ids as they are, and an upsert with a stable id is an upsert by key.
\<close>

lemma ids_written_again:
  "\<forall>s\<in>set secs. \<exists>y. stableId y \<and> s_id s = json y \<Longrightarrow>
     map s_id (map jsonSection secs) = map s_id secs"
  by (induction secs) (auto simp: s_id_jsonSection json_primitive)

lemma ids_upsertSection:
  assumes "\<forall>s\<in>set secs. \<exists>y. s_id s = json y" and "stableId sid"
  shows "map s_id (upsertSection now sid a secs) =
           (if json sid \<in> set (map s_id secs) then map s_id secs else map s_id secs @ [sid])"
  using assms(1)
proof (induction secs)
  case Nil
  then show ?case by (simp add: upsertSection_Nil)
next
  case (Cons s ss)
  from Cons.prems obtain y where y: "s_id s = json y" by auto
  have eq: "strictEquals (s_id s) sid = (s_id s = json sid)"
    unfolding y by (rule strictEquals_json[OF assms(2)])
  from Cons show ?case
    by (auto simp: upsertSection_Cons eq)
qed

lemma ids_written_upsertSection:
  assumes "\<forall>s\<in>set secs. \<exists>y. stableId y \<and> s_id s = json y" and "stableId sid"
  shows "map s_id (map jsonSection (upsertSection now sid a secs)) =
           (if json sid \<in> set (map s_id secs) then map s_id secs
            else map s_id secs @ [json sid])"
proof -
  from assms(1) have img: "\<forall>s\<in>set secs. \<exists>y. s_id s = json y" by blast
  have again: "map json (map s_id secs) = map s_id secs"
    using ids_written_again[OF assms(1)] by (simp add: s_id_jsonSection comp_def)
  have "map s_id (map jsonSection (upsertSection now sid a secs)) =
          map json (map s_id (upsertSection now sid a secs))"
    by (simp add: s_id_jsonSection comp_def)
  also have "\<dots> = map json (if json sid \<in> set (map s_id secs) then map s_id secs
                           else map s_id secs @ [sid])"
    by (simp only: ids_upsertSection[OF img assms(2)])
  finally show ?thesis
    using again by (auto split: if_splits)
qed

text \<open>The number of truthy flags, before and after a write.\<close>

lemma count_written:
  "\<forall>s\<in>set secs. truthy (json (s_acknowledged s)) = truthy (s_acknowledged s) \<Longrightarrow>
     length (filter (\<lambda>s. truthy (s_acknowledged s)) (map jsonSection secs)) =
     length (filter (\<lambda>s. truthy (s_acknowledged s)) secs)"
  by (induction secs) (auto simp: s_acknowledged_jsonSection)

lemma flags_upsertSection:
  "\<forall>s\<in>set secs. Q (s_acknowledged s) \<Longrightarrow> Q a \<Longrightarrow>
     \<forall>s\<in>set (upsertSection now sid a secs). Q (s_acknowledged s)"
  by (induction secs) (auto simp: upsertSection_Nil upsertSection_Cons)


text \<open>The same call a second time, on what the first call wrote.\<close>

lemma acknowledged_twice:
  assumes "\<forall>s\<in>set secs. \<exists>y. s_id s = json y"
    and "\<forall>s\<in>set secs. truthy (json (s_acknowledged s)) = truthy (s_acknowledged s)"
    and "stableId sid"
  shows "length (filter (\<lambda>s. truthy (s_acknowledged s))
           (upsertSection n2 sid a (map jsonSection (upsertSection n1 sid a secs))))
         = length (filter (\<lambda>s. truthy (s_acknowledged s)) (upsertSection n1 sid a secs))"
  using assms(1,2)
proof (induction secs)
  case Nil
  have "strictEquals (json sid) sid"
    by (simp add: strictEquals_json[OF assms(3)])
  then show ?case
    by (simp add: upsertSection_Nil upsertSection_Cons s_id_jsonSection jsonSection_def)
next
  case (Cons s ss)
  from Cons.prems obtain y where y: "s_id s = json y" by auto
  have same: "strictEquals (json (s_id s)) sid = strictEquals (s_id s) sid"
    unfolding y by (cases y; cases sid) (auto simp: isFiniteNumber_0 isZero_0)
  from Cons.prems have keep: "truthy (json (s_acknowledged s)) = truthy (s_acknowledged s)"
    and rest: "\<forall>t\<in>set ss. truthy (json (s_acknowledged t)) = truthy (s_acknowledged t)"
    and img: "\<forall>t\<in>set ss. \<exists>y. s_id t = json y"
    by auto
  show ?case
  proof (cases "strictEquals (s_id s) sid")
    case True
    then show ?thesis
      using same count_written[OF rest]
      by (simp add: upsertSection_Cons s_id_jsonSection)
  next
    case False
    then show ?thesis
      using same keep Cons.IH[OF img rest]
      by (simp add: upsertSection_Cons s_id_jsonSection s_acknowledged_jsonSection)
  qed
qed

section \<open>Properties of the progress handlers\<close>

lemma userId_jsonProgress: "userId (jsonProgress p) = userId p"
  by (simp add: jsonProgress_def)

lemma sections_jsonProgress: "sections (jsonProgress p) = map jsonSection (sections p)"
  by (simp add: jsonProgress_def)

lemma completedSections_jsonProgress: "completedSections (jsonProgress p) = completedSections p"
  by (simp add: jsonProgress_def)

lemma currentSection_jsonProgress: "currentSection (jsonProgress p) = currentSection p"
  by (simp add: jsonProgress_def)

lemma jsonProgress_newProgress: "jsonProgress (newProgress u now) = newProgress u now"
  by (simp add: jsonProgress_def newProgress_def)

lemma find_writeProgress:
  "find (\<lambda>p. userId p = k) (writeProgress ps) =
     map_option jsonProgress (find (\<lambda>p. userId p = k) ps)"
  unfolding writeProgress_def by (rule find_map_same) (simp add: userId_jsonProgress)

lemma userId_applyUpdate: "userId (applyUpdate clk sid a p) = userId p"
  by (simp add: applyUpdate_def updateCounters_def Let_def)

lemma sections_applyUpdate:
  "sections (applyUpdate clk sid a p) = upsertSection (t_completed clk) sid a (sections p)"
  by (simp add: applyUpdate_def updateCounters_def Let_def)

lemma completedSections_applyUpdate:
  "completedSections (applyUpdate clk sid a p) =
     int (length (filter (\<lambda>s. truthy (s_acknowledged s))
                    (upsertSection (t_completed clk) sid a (sections p))))"
  by (simp add: applyUpdate_def updateCounters_def Let_def)

lemma currentSection_applyUpdate:
  "currentSection (applyUpdate clk sid a p) = min (completedSections (applyUpdate clk sid a p)) 6"
  by (simp add: applyUpdate_def updateCounters_def Let_def)

lemma acknowledgeSection_found:
  assumes "find (\<lambda>p. userId p = i_id u) stored = Some p"
  shows "acknowledgeSection clk u sid a stored =
           (jsonProgress (applyUpdate clk sid a p),
            writeProgress
              (stored[nat (findIndex (\<lambda>p. userId p = i_id u) stored) := applyUpdate clk sid a p]))"
  using assms find_Some_findIndex[OF assms]
  by (simp add: acknowledgeSection_def Let_def)

lemma acknowledgeSection_fresh:
  assumes "find (\<lambda>p. userId p = i_id u) stored = None"
  shows "acknowledgeSection clk u sid a stored =
           (jsonProgress (applyUpdate clk sid a (newProgress u (t_created clk))),
            writeProgress (stored @ [applyUpdate clk sid a (newProgress u (t_created clk))]))"
proof -
  have neg: "findIndex (\<lambda>p. userId p = i_id u) stored < 0"
    using assms by (simp add: findIndex_find_None)
  have "findIndex (\<lambda>p. userId p = i_id u) (stored @ [newProgress u (t_created clk)])
          = int (length stored)"
    by (rule findIndex_append_fresh[OF neg]) (simp add: newProgress_def)
  with assms show ?thesis
    by (simp add: acknowledgeSection_def Let_def)
qed

lemma acknowledgeSection_applies:
  "\<exists>p. (p \<in> set stored \<or> p = newProgress u (t_created clk))
       \<and> fst (acknowledgeSection clk u sid a stored) = jsonProgress (applyUpdate clk sid a p)"
proof (cases "find (\<lambda>p. userId p = i_id u) stored")
  case None
  then show ?thesis by (auto simp: acknowledgeSection_fresh)
next
  case (Some p)
  with find_Some_sat[OF Some] show ?thesis by (auto simp: acknowledgeSection_found)
qed

lemma acknowledgeSection_persists:
  "find (\<lambda>p. userId p = i_id u) (snd (acknowledgeSection clk u sid a stored))
     = Some (fst (acknowledgeSection clk u sid a stored))"
proof (cases "find (\<lambda>p. userId p = i_id u) stored")
  case None
  then show ?thesis
    by (simp add: acknowledgeSection_fresh find_writeProgress find_append_fresh
        userId_applyUpdate newProgress_def)
next
  case (Some p)
  from find_Some_sat[OF Some] have "userId p = i_id u" by simp
  with Some find_Some_findIndex[OF Some] show ?thesis
    by (simp add: acknowledgeSection_found find_writeProgress find_update_first
        userId_applyUpdate)
qed

lemma set_acknowledgeSection:
  assumes "q \<in> set (snd (acknowledgeSection clk u sid a stored))"
  shows "(\<exists>p \<in> set stored. q = jsonProgress p)
         \<or> (\<exists>p \<in> set stored. q = jsonProgress (applyUpdate clk sid a p))
         \<or> q = jsonProgress (applyUpdate clk sid a (newProgress u (t_created clk)))"
proof (cases "find (\<lambda>p. userId p = i_id u) stored")
  case None
  with assms show ?thesis by (auto simp: acknowledgeSection_fresh writeProgress_def)
next
  case (Some p)
  from find_Some_sat[OF Some] have p: "p \<in> set stored" by simp
  from assms Some obtain q0 where
    q0: "q0 \<in> set (stored[nat (findIndex (\<lambda>p. userId p = i_id u) stored) := applyUpdate clk sid a p])"
    and q: "q = jsonProgress q0"
    by (auto simp: acknowledgeSection_found writeProgress_def)
  from q0 have "q0 \<in> insert (applyUpdate clk sid a p) (set stored)"
    using set_update_subset_insert by fastforce
  with p q show ?thesis by auto
qed

lemma set_getProgress:
  "q \<in> set (snd (getProgress now u stored)) \<Longrightarrow>
     q \<in> set stored \<or> (\<exists>p \<in> set stored. q = jsonProgress p) \<or> q = newProgress u now"
  by (auto simp: getProgress_def writeProgress_def jsonProgress_newProgress split: option.splits)

section \<open>Invariants of the progress file\<close>

lemma step_invariant:
  assumes stored: "\<forall>p\<in>set stored. I p"
    and fresh: "\<And>u t. I (newProgress u t)"
    and written: "\<And>p. I p \<Longrightarrow> I (jsonProgress p)"
    and upd: "\<And>clk s sid a p. ok (AcknowledgeSection clk s sid a) \<Longrightarrow> I p \<Longrightarrow>
                I (jsonProgress (applyUpdate clk sid a p))"
    and ok: "ok c"
  shows "\<forall>p\<in>set (step c stored). I p"
proof (cases c)
  case (GetProgress now req_session)
  show ?thesis
  proof
    fix q assume q: "q \<in> set (step c stored)"
    show "I q"
    proof (cases "isAuthenticated req_session")
      case (Reply r)
      with q GetProgress stored show ?thesis
        by (simp add: get_api_progress_def)
    next
      case Next
      show ?thesis
      proof (cases "session_user req_session")
        case None
        with q GetProgress Next stored show ?thesis
          by (simp add: get_api_progress_def)
      next
        case (Some u)
        with q GetProgress Next
        have "q \<in> set (snd (getProgress now u stored))"
          by (simp add: get_api_progress_def split: prod.splits)
        from set_getProgress[OF this] stored fresh written show ?thesis by auto
      qed
    qed
  qed
next
  case (AcknowledgeSection clk req_session sid a)
  show ?thesis
  proof
    fix q assume q: "q \<in> set (step c stored)"
    show "I q"
    proof (cases "isAuthenticated req_session")
      case (Reply r)
      with q AcknowledgeSection stored show ?thesis
        by (simp add: post_api_progress_def)
    next
      case Next
      show ?thesis
      proof (cases "session_user req_session")
        case None
        with q AcknowledgeSection Next stored show ?thesis
          by (simp add: post_api_progress_def)
      next
        case (Some u)
        with q AcknowledgeSection Next
        have "q \<in> set (snd (acknowledgeSection clk u sid a stored))"
          by (simp add: post_api_progress_def split: prod.splits)
        from set_acknowledgeSection[OF this] stored fresh written
          upd[OF ok[unfolded AcknowledgeSection]]
        show ?thesis by auto
      qed
    qed
  qed
qed

lemma run_invariant:
  assumes "\<forall>c\<in>set cs. ok c"
    and "\<forall>p\<in>set stored. I p"
    and "\<And>u t. I (newProgress u t)"
    and "\<And>p. I p \<Longrightarrow> I (jsonProgress p)"
    and "\<And>clk s sid a p. ok (AcknowledgeSection clk s sid a) \<Longrightarrow> I p \<Longrightarrow>
            I (jsonProgress (applyUpdate clk sid a p))"
  shows "\<forall>p\<in>set (run cs stored). I p"
  using assms(1,2)
proof (induction cs arbitrary: stored)
  case Nil
  then show ?case by simp
next
  case (Cons c cs)
  from Cons.prems(1) have c: "ok c" and cs: "\<forall>c\<in>set cs. ok c" by simp_all
  have "\<forall>p\<in>set (step c stored). I p"
    by (rule step_invariant[where ok = ok, OF Cons.prems(2) assms(3) assms(4) assms(5) c])
  from Cons.IH[OF cs this] show ?case by simp
qed

text \<open>After any calls at all: the counters the last write of a record computed.\<close>

lemma run_currentSection:
  "\<forall>p\<in>set (run cs []). currentSection p = min (completedSections p) 6"
  by (rule run_invariant[where ok = "\<lambda>c. True"])
     (simp_all add: newProgress_def currentSection_jsonProgress completedSections_jsonProgress
        currentSection_applyUpdate)

text \<open>
  After calls with stable ids: every id is the written form of a stable id, and no two
  sections of a record have the same id.
\<close>

lemma run_stable_ids:
  assumes "\<forall>c\<in>set cs. stableIdCall c"
  shows "\<forall>p\<in>set (run cs []).
           (\<forall>s\<in>set (sections p). \<exists>y. stableId y \<and> s_id s = json y)
           \<and> distinct (map s_id (sections p))"
    (is "\<forall>p\<in>_. ?I p")
proof (rule run_invariant[where ok = stableIdCall and I = ?I, OF assms])
  show "\<forall>p\<in>set []. ?I p" by simp
next
  fix u t show "?I (newProgress u t)" by (simp add: newProgress_def)
next
  fix p assume I: "?I p"
  then have ids: "\<forall>s\<in>set (sections p). \<exists>y. stableId y \<and> s_id s = json y"
    by blast
  have same: "map s_id (map jsonSection (sections p)) = map s_id (sections p)"
    by (rule ids_written_again[OF ids])
  have a: "\<forall>s\<in>set (sections (jsonProgress p)). \<exists>y. stableId y \<and> s_id s = json y"
  proof
    fix s assume "s \<in> set (sections (jsonProgress p))"
    then have "s_id s \<in> set (map s_id (map jsonSection (sections p)))"
      by (auto simp: sections_jsonProgress)
    with same have "s_id s \<in> s_id ` set (sections p)" by simp
    with ids show "\<exists>y. stableId y \<and> s_id s = json y" by auto
  qed
  have b: "distinct (map s_id (sections (jsonProgress p)))"
    unfolding sections_jsonProgress same using I by blast
  from a b show "?I (jsonProgress p)" by blast
next
  fix clk s sid a p
  assume ok: "stableIdCall (AcknowledgeSection clk s sid a)" and I: "?I p"
  from ok have sid: "stableId sid" by simp
  from I have ids: "\<forall>s\<in>set (sections p). \<exists>y. stableId y \<and> s_id s = json y"
    and dist: "distinct (map s_id (sections p))"
    by blast+
  let ?q = "jsonProgress (applyUpdate clk sid a p)"
  let ?up = "upsertSection (t_completed clk) sid a (sections p)"
  have secs: "sections ?q = map jsonSection ?up"
    by (simp add: sections_jsonProgress sections_applyUpdate)
  have idlist: "map s_id (sections ?q) =
                  (if json sid \<in> set (map s_id (sections p)) then map s_id (sections p)
                   else map s_id (sections p) @ [json sid])"
    unfolding secs by (rule ids_written_upsertSection[OF ids sid])
  have a: "\<forall>s\<in>set (sections ?q). \<exists>y. stableId y \<and> s_id s = json y"
  proof
    fix s assume "s \<in> set (sections ?q)"
    then have "s_id s \<in> set (map s_id (sections ?q))" by simp
    then have "s_id s \<in> s_id ` set (sections p) \<or> s_id s = json sid"
      unfolding idlist by (auto split: if_splits)
    with ids sid show "\<exists>y. stableId y \<and> s_id s = json y" by auto
  qed
  have b: "distinct (map s_id (sections ?q))"
    unfolding idlist using dist by simp
  from a b show "?I ?q" by blast
qed

text \<open>
  After calls with stable flags: every flag keeps its truth value when written, and
  \<open>completedSections\<close> is the number of truthy flags.
\<close>

lemma run_stable_flags:
  assumes "\<forall>c\<in>set cs. stableFlagCall c"
  shows "\<forall>p\<in>set (run cs []).
           (\<forall>s\<in>set (sections p).
               truthy (json (s_acknowledged s)) = truthy (s_acknowledged s))
           \<and> completedSections p
               = int (length (filter (\<lambda>s. truthy (s_acknowledged s)) (sections p)))"
    (is "\<forall>p\<in>_. ?I p")
proof (rule run_invariant[where ok = stableFlagCall and I = ?I, OF assms])
  show "\<forall>p\<in>set []. ?I p" by simp
next
  fix u t show "?I (newProgress u t)" by (simp add: newProgress_def)
next
  fix p assume I: "?I p"
  then have keep: "\<forall>s\<in>set (sections p).
                     truthy (json (s_acknowledged s)) = truthy (s_acknowledged s)"
    by blast
  have c: "\<forall>s\<in>set (sections (jsonProgress p)).
             truthy (json (s_acknowledged s)) = truthy (s_acknowledged s)"
    by (auto simp: sections_jsonProgress s_acknowledged_jsonSection truthy_json_json)
  have d: "completedSections (jsonProgress p) =
             int (length (filter (\<lambda>s. truthy (s_acknowledged s)) (sections (jsonProgress p))))"
    unfolding sections_jsonProgress completedSections_jsonProgress count_written[OF keep]
    using I by blast
  from c d show "?I (jsonProgress p)" by blast
next
  fix clk s sid a p
  assume ok: "stableFlagCall (AcknowledgeSection clk s sid a)" and I: "?I p"
  from ok have flag: "stableFlag a" by simp
  from I have keep: "\<forall>s\<in>set (sections p).
                       truthy (json (s_acknowledged s)) = truthy (s_acknowledged s)"
    by blast
  let ?q = "jsonProgress (applyUpdate clk sid a p)"
  let ?up = "upsertSection (t_completed clk) sid a (sections p)"
  have secs: "sections ?q = map jsonSection ?up"
    by (simp add: sections_jsonProgress sections_applyUpdate)
  have keep': "\<forall>s\<in>set ?up. truthy (json (s_acknowledged s)) = truthy (s_acknowledged s)"
    by (rule flags_upsertSection[OF keep]) (rule truthy_json_stable[OF flag])
  have c: "\<forall>s\<in>set (sections ?q). truthy (json (s_acknowledged s)) = truthy (s_acknowledged s)"
    unfolding secs by (auto simp: s_acknowledged_jsonSection truthy_json_json)
  have d: "completedSections ?q =
             int (length (filter (\<lambda>s. truthy (s_acknowledged s)) (sections ?q)))"
    unfolding secs completedSections_jsonProgress completedSections_applyUpdate
      count_written[OF keep']
    by (rule refl)
  from c d show "?I ?q" by blast
qed

lemma run_stable:
  assumes "\<forall>c\<in>set cs. stableCall c"
  shows "\<forall>p\<in>set (run cs []).
           (\<forall>s\<in>set (sections p). \<exists>y. stableId y \<and> s_id s = json y)
           \<and> distinct (map s_id (sections p))
           \<and> (\<forall>s\<in>set (sections p).
                 truthy (json (s_acknowledged s)) = truthy (s_acknowledged s))
           \<and> completedSections p
               = int (length (filter (\<lambda>s. truthy (s_acknowledged s)) (sections p)))"
proof -
  from assms have "\<forall>c\<in>set cs. stableIdCall c" and "\<forall>c\<in>set cs. stableFlagCall c"
    by (simp_all add: stableCall_def)
  from run_stable_ids[OF this(1)] run_stable_flags[OF this(2)] show ?thesis
    by blast
qed

lemma card_acknowledgedIds:
  "distinct (map s_id (sections p)) \<Longrightarrow>
     card (acknowledgedIds p) = length (filter (\<lambda>s. truthy (s_acknowledged s)) (sections p))"
  unfolding acknowledgedIds_def
  by (metis distinct_card distinct_map_filter length_map list.set_map)

lemma run_append: "run (cs @ ds) stored = run ds (run cs stored)"
  by (induction cs arbitrary: stored) simp_all

lemma post_api_progress_authenticated:
  "post_api_progress clk (Some \<lparr>user = Some u\<rparr>) sid a stored =
     (\<lparr>status = 200, body = Progress (fst (acknowledgeSection clk u sid a stored))\<rparr>,
      snd (acknowledgeSection clk u sid a stored))"
  by (simp add: post_api_progress_def isAuthenticated_def session_user_def split: prod.splits)

lemma get_api_progress_authenticated:
  "get_api_progress now (Some \<lparr>user = Some u\<rparr>) stored =
     (\<lparr>status = 200, body = Progress (fst (getProgress now u stored))\<rparr>,
      snd (getProgress now u stored))"
  by (simp add: get_api_progress_def isAuthenticated_def session_user_def split: prod.splits)

lemma acknowledgeSection_reachable:
  "snd (acknowledgeSection clk u sid a (run cs [])) =
     run (cs @ [AcknowledgeSection clk (Some \<lparr>user = Some u\<rparr>) sid a]) []"
  by (simp add: run_append post_api_progress_authenticated)

lemma acknowledgeSection_returns_stored:
  "fst (acknowledgeSection clk u sid a (run cs [])) \<in>
     set (run (cs @ [AcknowledgeSection clk (Some \<lparr>user = Some u\<rparr>) sid a]) [])"
  using acknowledgeSection_persists[of u clk sid a "run cs []"]
  by (simp add: find_Some_sat flip: acknowledgeSection_reachable)

section \<open>Writing a file twice\<close>





section \<open>Evaluation at the concrete inputs\<close>

lemmas demo_defs =
  staffSession_def post_api_progress_def isAuthenticated_def session_user_def
  acknowledgeSection_def applyUpdate_def upsertSection_def updateCounters_def
  newProgress_def staff_def noon_def Let_def writeProgress_def jsonProgress_def
  jsonSection_def num0_def num1_def num3_def num42_def infinity_def true_def false_def
  isFiniteNumber_def isZero_def isNaN_def numberEquals_def

lemma demoCalls_stable: "\<forall>c\<in>set demoCalls. stableCall c"
  by (simp add: demoCalls_def stableCall_def num0_def num3_def true_def isFiniteNumber_def)

lemma demoCalls_run:
  "run demoCalls [] =
     [\<lparr>userId = 2, userName = ''Demo Staff'',
       sections =
         [\<lparr>s_id = num0, s_acknowledged = true, s_completedAt = ''2025-01-01T12:00:00.001Z''\<rparr>,
          \<lparr>s_id = num3, s_acknowledged = true, s_completedAt = ''2025-01-01T12:00:00.001Z''\<rparr>],
       currentSection = 2, completedSections = 2,
       lastUpdated = ''2025-01-01T12:00:00.002Z''\<rparr>]"
  by (simp add: demoCalls_def demo_defs)


lemma infinityTwice_run:
  "run infinityTwice [] =
     [\<lparr>userId = 2, userName = ''Demo Staff'',
       sections =
         [\<lparr>s_id = JNull, s_acknowledged = true, s_completedAt = ''2025-01-01T12:00:00.001Z''\<rparr>,
          \<lparr>s_id = JNull, s_acknowledged = true, s_completedAt = ''2025-01-01T12:00:00.001Z''\<rparr>],
       currentSection = 2, completedSections = 2,
       lastUpdated = ''2025-01-01T12:00:00.002Z''\<rparr>]"
  by (simp add: infinityTwice_def demo_defs)

section \<open>Login with a string password\<close>

text \<open>
  When the password is a string, a login with an email no stored user has and a login
  with the email of a stored user and a password that does not match send the same
  response and leave the session as it was.
\<close>

lemma login_string_password_failures_same:
  assumes "find (\<lambda>u. strictEquals (JString (u_email u)) unknownEmail) users = None"
    and "find (\<lambda>u. strictEquals (JString (u_email u)) knownEmail) users = Some usr"
    and "\<not> matches wrongPassword (u_password usr)"
  shows "login matches users req_session unknownEmail password =
           (\<lparr>status = 401, body = Error ''Invalid credentials''\<rparr>, req_session)
         \<and> login matches users req_session knownEmail (JString wrongPassword) =
           (\<lparr>status = 401, body = Error ''Invalid credentials''\<rparr>, req_session)"
  using assms by (simp add: login_def compareSync_def)

section \<open>The claims\<close>

text \<open>
  C1, as amended. After any sequence of calls from the empty progress file in which
  every \<^verbatim>\<open>sectionId\<close> is a finite number, a string, a boolean, \<^verbatim>\<open>null\<close> or missing and no
  \<^verbatim>\<open>acknowledged\<close> is a number that is not finite, every stored record, and the record
  a further such \<^verbatim>\<open>POST /api/progress\<close> returns, has \<open>completedSections\<close> equal to the
  number of distinct section ids whose \<^verbatim>\<open>acknowledged\<close> flag is truthy (\<^verbatim>\<open>true\<close>, for a
  boolean flag).
\<close>

theorem completedSections_counts_acknowledged_ids:
  assumes "\<forall>c\<in>set cs. stableCall c"
  shows "(\<forall>p\<in>set (run cs []). completedSections p = int (card (acknowledgedIds p)))
         \<and> (stableId sectionId \<and> stableFlag acknowledged \<longrightarrow>
              completedSections (fst (acknowledgeSection clk u sectionId acknowledged (run cs [])))
              = int (card (acknowledgedIds
                  (fst (acknowledgeSection clk u sectionId acknowledged (run cs []))))))"
proof -
  have stored: "\<forall>p\<in>set (run ds []). completedSections p = int (card (acknowledgedIds p))"
    if "\<forall>c\<in>set ds. stableCall c" for ds
    using run_stable[OF that] by (simp add: card_acknowledgedIds)
  have "completedSections (fst (acknowledgeSection clk u sectionId acknowledged (run cs [])))
          = int (card (acknowledgedIds
              (fst (acknowledgeSection clk u sectionId acknowledged (run cs [])))))"
    if "stableId sectionId" "stableFlag acknowledged"
  proof -
    let ?c = "AcknowledgeSection clk (Some \<lparr>user = Some u\<rparr>) sectionId acknowledged"
    from assms that have "\<forall>c\<in>set (cs @ [?c]). stableCall c"
      by (simp add: stableCall_def)
    from stored[OF this] acknowledgeSection_returns_stored[of clk u sectionId acknowledged cs]
    show ?thesis by blast
  qed
  with stored[OF assms] show ?thesis by blast
qed

theorem completedSections_counts_acknowledged_ids_witness:
  "list_all stableCall demoCalls
   \<and> hd (run demoCalls []) \<in> set (run demoCalls [])
   \<and> completedSections (hd (run demoCalls [])) = 2
   \<and> int (card (acknowledgedIds (hd (run demoCalls [])))) = 2"
proof -
  have mem: "hd (run demoCalls []) \<in> set (run demoCalls [])"
    by (simp add: demoCalls_run)
  have two: "completedSections (hd (run demoCalls [])) = 2"
    by (simp add: demoCalls_run)
  from completedSections_counts_acknowledged_ids[OF demoCalls_stable] mem
  have "completedSections (hd (run demoCalls [])) =
          int (card (acknowledgedIds (hd (run demoCalls []))))"
    by blast
  with mem two demoCalls_stable show ?thesis by (simp add: list_all_iff)
qed

text \<open>
  C1 as stated fails: the literal \<^verbatim>\<open>1e999\<close> is parsed as \<^verbatim>\<open>Infinity\<close>, written as
  \<^verbatim>\<open>null\<close> and never found again. After two calls with that id and \<^verbatim>\<open>true\<close> the
  stored record has \<open>completedSections\<close> 2, and one distinct acknowledged id, \<^verbatim>\<open>null\<close>.
\<close>

theorem infinity_id_counted_twice:
  "map completedSections (run infinityTwice []) = [2]
   \<and> map acknowledgedIds (run infinityTwice []) = [{JNull}]
   \<and> card {JNull} = 1"
  by (simp add: infinityTwice_run acknowledgedIds_def true_def)

text \<open>
  C2. After any sequence of \<^verbatim>\<open>GET\<close> and \<^verbatim>\<open>POST /api/progress\<close> calls, in any
  order and with any bodies, every stored record and the record either handler returns
  next has \<open>currentSection = min completedSections 6\<close>.
\<close>

theorem currentSection_is_min_completed_6:
  "(\<forall>p\<in>set (run cs []). currentSection p = min (completedSections p) 6)
   \<and> currentSection (fst (getProgress now u (run cs [])))
       = min (completedSections (fst (getProgress now u (run cs [])))) 6
   \<and> currentSection (fst (acknowledgeSection clk u sectionId acknowledged (run cs [])))
       = min (completedSections
               (fst (acknowledgeSection clk u sectionId acknowledged (run cs [])))) 6"
proof -
  have stored: "\<forall>p\<in>set (run cs []). currentSection p = min (completedSections p) 6" for cs
    by (rule run_currentSection)
  have get: "currentSection (fst (getProgress now u (run cs [])))
       = min (completedSections (fst (getProgress now u (run cs [])))) 6"
  proof (cases "find (\<lambda>p. userId p = i_id u) (run cs [])")
    case None
    then show ?thesis
      by (simp add: getProgress_def currentSection_jsonProgress completedSections_jsonProgress
          newProgress_def)
  next
    case (Some p)
    from find_Some_sat[OF Some] stored have "currentSection p = min (completedSections p) 6"
      by blast
    with Some show ?thesis
      by (simp add: getProgress_def currentSection_jsonProgress completedSections_jsonProgress)
  qed
  from stored get acknowledgeSection_returns_stored[of clk u sectionId acknowledged cs]
  show ?thesis by blast
qed

theorem currentSection_is_min_completed_6_witness:
  "hd (run demoCalls []) \<in> set (run demoCalls [])
   \<and> completedSections (hd (run demoCalls [])) = 2
   \<and> currentSection (hd (run demoCalls [])) = min 2 6"
proof -
  have mem: "hd (run demoCalls []) \<in> set (run demoCalls [])"
    by (simp add: demoCalls_run)
  have two: "completedSections (hd (run demoCalls [])) = 2"
    by (simp add: demoCalls_run)
  from currentSection_is_min_completed_6[of demoCalls] mem
  have "currentSection (hd (run demoCalls [])) = min (completedSections (hd (run demoCalls []))) 6"
    by blast
  with mem two show ?thesis by simp
qed






text \<open>
  C5, as amended. From any progress file the server has written, and for a
  \<^verbatim>\<open>sectionId\<close> that is a finite number, a string, a boolean, \<^verbatim>\<open>null\<close> or missing,
  acknowledging the section with \<^verbatim>\<open>acknowledged = true\<close> a second time returns the
  \<open>completedSections\<close> the first call returned.
\<close>

theorem reacknowledge_no_double_count:
  assumes "stableId sectionId"
  shows "completedSections
           (fst (acknowledgeSection clk2 u sectionId (JBool True)
                  (snd (acknowledgeSection clk1 u sectionId (JBool True)
                         (writeProgress stored)))))
         = completedSections
             (fst (acknowledgeSection clk1 u sectionId (JBool True) (writeProgress stored)))"
proof -
  let ?first = "acknowledgeSection clk1 u sectionId (JBool True) (writeProgress stored)"
  obtain p where src: "p \<in> set (writeProgress stored) \<or> p = newProgress u (t_created clk1)"
    and p: "fst ?first = jsonProgress (applyUpdate clk1 sectionId (JBool True) p)"
    using acknowledgeSection_applies by blast
  have img: "\<forall>s\<in>set (sections p). \<exists>y. s_id s = json y"
    and keep: "\<forall>s\<in>set (sections p).
                 truthy (json (s_acknowledged s)) = truthy (s_acknowledged s)"
    using src
    by (fastforce simp: writeProgress_def sections_jsonProgress s_id_jsonSection
        s_acknowledged_jsonSection truthy_json_json newProgress_def)+
  have "find (\<lambda>p. userId p = i_id u) (snd ?first) = Some (fst ?first)"
    by (rule acknowledgeSection_persists)
  then have second: "fst (acknowledgeSection clk2 u sectionId (JBool True) (snd ?first))
               = jsonProgress (applyUpdate clk2 sectionId (JBool True) (fst ?first))"
    by (simp add: acknowledgeSection_found)
  have "completedSections (fst (acknowledgeSection clk2 u sectionId (JBool True) (snd ?first)))
          = int (length (filter (\<lambda>s. truthy (s_acknowledged s))
              (upsertSection (t_completed clk2) sectionId (JBool True)
                (map jsonSection
                  (upsertSection (t_completed clk1) sectionId (JBool True) (sections p))))))"
    by (simp only: second p completedSections_jsonProgress completedSections_applyUpdate
        sections_jsonProgress sections_applyUpdate)
  also have "\<dots> = int (length (filter (\<lambda>s. truthy (s_acknowledged s))
              (upsertSection (t_completed clk1) sectionId (JBool True) (sections p))))"
    by (simp only: acknowledged_twice[OF img keep assms])
  also have "\<dots> = completedSections (fst ?first)"
    by (simp only: p completedSections_jsonProgress completedSections_applyUpdate)
  finally show ?thesis .
qed

theorem reacknowledge_no_double_count_witness:
  "stableId num3
   \<and> completedSections (fst (acknowledgeSection noon staff num3 (JBool True) (writeProgress []))) = 1
   \<and> completedSections
        (fst (acknowledgeSection noon staff num3 (JBool True)
               (snd (acknowledgeSection noon staff num3 (JBool True) (writeProgress []))))) = 1"
proof -
  have st: "stableId num3" by (simp add: num3_def isFiniteNumber_def)
  have one: "completedSections
               (fst (acknowledgeSection noon staff num3 (JBool True) (writeProgress []))) = 1"
    by (simp add: demo_defs)
  from reacknowledge_no_double_count[OF st, of noon staff noon "[]"] one st
  show ?thesis by simp
qed

text \<open>
  C5 as stated fails: with the id \<^verbatim>\<open>1e999\<close>, parsed as \<^verbatim>\<open>Infinity\<close>, the first call
  returns \<open>completedSections\<close> 1 and the same call again returns 2.
\<close>

theorem infinity_id_counted_again:
  "completedSections (fst (acknowledgeSection noon staff infinity (JBool True) (writeProgress []))) = 1
   \<and> completedSections
        (fst (acknowledgeSection noon staff infinity (JBool True)
               (snd (acknowledgeSection noon staff infinity (JBool True) (writeProgress []))))) = 2"
  by (simp add: demo_defs)



text \<open>
  C7. The two failures of a login are told apart by a request without a password:
  for the email of a stored user \<^verbatim>\<open>bcrypt.compareSync\<close> throws and the answer is 500,
  for an email no stored user has the answer is 401 \<^verbatim>\<open>Invalid credentials\<close>.
\<close>

theorem login_without_password_reveals_email:
  "login demoCompare defaultUsers \<lparr>user = None\<rparr> (JString ''staff@maytech.com'') JUndefined =
     (\<lparr>status = 500, body = Uncaught ''Illegal arguments: undefined, string''\<rparr>,
      \<lparr>user = None\<rparr>)
   \<and> login demoCompare defaultUsers \<lparr>user = None\<rparr> (JString ''nobody@maytech.com'') JUndefined =
     (\<lparr>status = 401, body = Error ''Invalid credentials''\<rparr>, \<lparr>user = None\<rparr>)"
  by (simp add: login_def compareSync_def defaultUsers_def)

text \<open>
  C8. \<^verbatim>\<open>isAdmin\<close> calls \<^verbatim>\<open>next()\<close> exactly when \<^verbatim>\<open>isAuthenticated\<close> would and the
  role of the session's user is \<^verbatim>\<open>admin\<close>; in every other case it answers 403
  \<^verbatim>\<open>Admin access required\<close>.
\<close>

theorem isAdmin_iff_authenticated_admin:
  "isAdmin req_session =
     (if isAuthenticated req_session = Next
         \<and> (\<exists>u. session_user req_session = Some u \<and> i_role u = ''admin'')
      then Next
      else Reply \<lparr>status = 403, body = Error ''Admin access required''\<rparr>)"
  by (simp add: isAdmin_def isAuthenticated_def session_user_def split: option.splits)

text \<open>
  C9, as amended. For every session that passes \<^verbatim>\<open>isAuthenticated\<close> and every parsed
  \<^verbatim>\<open>sectionId\<close> and \<^verbatim>\<open>acknowledged\<close>, \<^verbatim>\<open>POST /api/progress\<close> answers 200 with the
  user's record, and the file written holds that record for the user. The record holds
  a section whose id and flag are the given values as JSON writes and reads them: an id
  that is a finite number, a string, a boolean, \<^verbatim>\<open>null\<close> or missing is \<^verbatim>\<open>===\<close> to the
  given one.
\<close>

theorem acknowledgeSection_accepts_any_id:
  assumes "isAuthenticated req_session = Next"
  shows "\<exists>u p written.
           session_user req_session = Some u
           \<and> post_api_progress clk req_session sectionId acknowledged stored =
               (\<lparr>status = 200, body = Progress p\<rparr>, written)
           \<and> (\<exists>s\<in>set (sections p).
                 s_id s = json sectionId \<and> s_acknowledged s = json acknowledged
                 \<and> (stableId sectionId \<longrightarrow> strictEquals (s_id s) sectionId))
           \<and> find (\<lambda>q. userId q = i_id u) written = Some p"
proof -
  from assms obtain u where u: "session_user req_session = Some u"
    by (auto simp: isAuthenticated_def session_user_def split: option.splits)
  let ?r = "acknowledgeSection clk u sectionId acknowledged stored"
  have route: "post_api_progress clk req_session sectionId acknowledged stored =
                 (\<lparr>status = 200, body = Progress (fst ?r)\<rparr>, snd ?r)"
    using assms u by (simp add: post_api_progress_def split: prod.splits)
  obtain p0 where p0: "fst ?r = jsonProgress (applyUpdate clk sectionId acknowledged p0)"
    using acknowledgeSection_applies by blast
  obtain s0 where s0: "s0 \<in> set (upsertSection (t_completed clk) sectionId acknowledged (sections p0))"
    and id0: "json (s_id s0) = json sectionId" and flag0: "s_acknowledged s0 = acknowledged"
    using upsertSection_stores by blast
  have mem: "jsonSection s0 \<in> set (sections (fst ?r))"
    using s0 by (simp add: p0 sections_jsonProgress sections_applyUpdate)
  have id: "s_id (jsonSection s0) = json sectionId"
    by (simp add: s_id_jsonSection id0)
  have flag: "s_acknowledged (jsonSection s0) = json acknowledged"
    by (simp add: s_acknowledged_jsonSection flag0)
  have eq: "stableId sectionId \<longrightarrow> strictEquals (s_id (jsonSection s0)) sectionId"
    by (simp add: id strictEquals_json)
  from mem id flag eq
  have "\<exists>s\<in>set (sections (fst ?r)).
          s_id s = json sectionId \<and> s_acknowledged s = json acknowledged
          \<and> (stableId sectionId \<longrightarrow> strictEquals (s_id s) sectionId)"
    by blast
  with u route acknowledgeSection_persists[of u clk sectionId acknowledged stored]
  show ?thesis by blast
qed

theorem acknowledgeSection_accepts_any_id_witness:
  "isAuthenticated staffSession = Next
   \<and> stableId num42
   \<and> post_api_progress noon staffSession num42 true [] =
       (\<lparr>status = 200,
         body = Progress
           \<lparr>userId = 2, userName = ''Demo Staff'',
            sections = [\<lparr>s_id = num42, s_acknowledged = true,
                         s_completedAt = ''2025-01-01T12:00:00.001Z''\<rparr>],
            currentSection = 1, completedSections = 1,
            lastUpdated = ''2025-01-01T12:00:00.002Z''\<rparr>\<rparr>,
        [\<lparr>userId = 2, userName = ''Demo Staff'',
          sections = [\<lparr>s_id = num42, s_acknowledged = true,
                       s_completedAt = ''2025-01-01T12:00:00.001Z''\<rparr>],
          currentSection = 1, completedSections = 1,
          lastUpdated = ''2025-01-01T12:00:00.002Z''\<rparr>])"
proof -
  have auth: "isAuthenticated staffSession = Next"
    by (simp add: isAuthenticated_def staffSession_def)
  have st: "stableId num42" by (simp add: num42_def isFiniteNumber_def)
  from acknowledgeSection_accepts_any_id[OF auth, of noon num42 true "[]"]
  obtain p written where
    "post_api_progress noon staffSession num42 true [] = (\<lparr>status = 200, body = Progress p\<rparr>, written)"
    by blast
  moreover have "post_api_progress noon staffSession num42 true [] =
       (\<lparr>status = 200,
         body = Progress
           \<lparr>userId = 2, userName = ''Demo Staff'',
            sections = [\<lparr>s_id = num42, s_acknowledged = true,
                         s_completedAt = ''2025-01-01T12:00:00.001Z''\<rparr>],
            currentSection = 1, completedSections = 1,
            lastUpdated = ''2025-01-01T12:00:00.002Z''\<rparr>\<rparr>,
        [\<lparr>userId = 2, userName = ''Demo Staff'',
          sections = [\<lparr>s_id = num42, s_acknowledged = true,
                       s_completedAt = ''2025-01-01T12:00:00.001Z''\<rparr>],
          currentSection = 1, completedSections = 1,
          lastUpdated = ''2025-01-01T12:00:00.002Z''\<rparr>])"
    by (simp add: demo_defs)
  ultimately show ?thesis using auth st by simp
qed

text \<open>
  C9 as stated fails: for the id \<^verbatim>\<open>1e999\<close>, parsed as \<^verbatim>\<open>Infinity\<close>, the record returned
  and the record written hold the id \<^verbatim>\<open>null\<close>, not the given id.
\<close>

theorem infinity_id_stored_as_null:
  "post_api_progress noon staffSession infinity true [] =
     (\<lparr>status = 200,
       body = Progress
         \<lparr>userId = 2, userName = ''Demo Staff'',
          sections = [\<lparr>s_id = JNull, s_acknowledged = true,
                       s_completedAt = ''2025-01-01T12:00:00.001Z''\<rparr>],
          currentSection = 1, completedSections = 1,
          lastUpdated = ''2025-01-01T12:00:00.002Z''\<rparr>\<rparr>,
      [\<lparr>userId = 2, userName = ''Demo Staff'',
        sections = [\<lparr>s_id = JNull, s_acknowledged = true,
                     s_completedAt = ''2025-01-01T12:00:00.001Z''\<rparr>],
        currentSection = 1, completedSections = 1,
        lastUpdated = ''2025-01-01T12:00:00.002Z''\<rparr>])
   \<and> JNull \<noteq> infinity \<and> \<not> strictEquals JNull infinity"
  by (simp add: demo_defs)

text \<open>
  C10, as amended. After any sequence of calls from the empty progress file in which
  every \<^verbatim>\<open>sectionId\<close> is a finite number, a string, a boolean, \<^verbatim>\<open>null\<close> or missing,
  no stored record, and no record a further such \<^verbatim>\<open>POST /api/progress\<close> returns, has
  two sections with the same id.
\<close>

theorem sections_one_entry_per_id:
  assumes "\<forall>c\<in>set cs. stableIdCall c"
  shows "(\<forall>p\<in>set (run cs []). distinct (map s_id (sections p)))
         \<and> (stableId sectionId \<longrightarrow>
              distinct (map s_id
                (sections (fst (acknowledgeSection clk u sectionId acknowledged (run cs []))))))"
proof -
  have stored: "\<forall>p\<in>set (run ds []). distinct (map s_id (sections p))"
    if "\<forall>c\<in>set ds. stableIdCall c" for ds
    using run_stable_ids[OF that] by blast
  have "distinct (map s_id
          (sections (fst (acknowledgeSection clk u sectionId acknowledged (run cs [])))))"
    if "stableId sectionId"
  proof -
    let ?c = "AcknowledgeSection clk (Some \<lparr>user = Some u\<rparr>) sectionId acknowledged"
    from assms that have "\<forall>c\<in>set (cs @ [?c]). stableIdCall c" by simp
    from stored[OF this] acknowledgeSection_returns_stored[of clk u sectionId acknowledged cs]
    show ?thesis by blast
  qed
  with stored[OF assms] show ?thesis by blast
qed

theorem sections_one_entry_per_id_witness:
  "list_all stableIdCall demoCalls
   \<and> hd (run demoCalls []) \<in> set (run demoCalls [])
   \<and> map s_id (sections (hd (run demoCalls []))) = [num0, num3]
   \<and> distinct (map s_id (sections (hd (run demoCalls []))))"
proof -
  have stable: "\<forall>c\<in>set demoCalls. stableIdCall c"
    using demoCalls_stable by (simp add: stableCall_def)
  have mem: "hd (run demoCalls []) \<in> set (run demoCalls [])"
    by (simp add: demoCalls_run)
  have ids: "map s_id (sections (hd (run demoCalls []))) = [num0, num3]"
    by (simp add: demoCalls_run)
  from sections_one_entry_per_id[OF stable] mem
  have "distinct (map s_id (sections (hd (run demoCalls []))))"
    by blast
  with mem ids stable show ?thesis by (simp add: list_all_iff)
qed

text \<open>
  C10 as stated fails: after two calls with the id \<^verbatim>\<open>1e999\<close>, parsed as
  \<^verbatim>\<open>Infinity\<close>, the stored record has two sections with the id \<^verbatim>\<open>null\<close>.
\<close>

theorem infinity_id_stored_twice:
  "map s_id (sections (hd (run infinityTwice []))) = [JNull, JNull]
   \<and> \<not> distinct (map s_id (sections (hd (run infinityTwice []))))"
  by (simp add: infinityTwice_run)

end
